theory Spec2Isabelle
  imports Main
begin

section \<open>Exceptions and the outside world\<close>

text \<open>
  The exceptions that can leave the functions of \<^verbatim>\<open>googlesearch/__init__.py\<close>.
  \<open>ParserError\<close> is the one \<^verbatim>\<open>format_date\<close> catches; every other exception of the
  date parser (\<open>OverflowError\<close>, \<open>TypeError\<close>) passes through it unchanged.
\<close>

datatype exn =
    ValueError string
  | ParserError
  | OverflowError
  | TypeError
  | ConnectionError string
  | HTTPError int

text \<open>The date part of what \<^verbatim>\<open>dateutil.parser.parse\<close> returns.\<close>

record datetime =
  year :: nat
  month :: nat
  day :: nat

text \<open>What \<^verbatim>\<open>requests.get\<close> is called with: the query parameters and the settings.\<close>

record request =
  rq_q :: string
  rq_num :: int
  rq_hl :: string
  rq_start :: int
  rq_safe :: string
  rq_gl :: "string option"
  rq_tbs :: "string option"
  rq_user_agent :: string
  rq_proxies :: "(string \<times> string) option"
  rq_timeout :: int
  rq_verify :: "bool option"

record response =
  status_code :: int
  resp_text :: string

text \<open>
  One \<^verbatim>\<open>div.ezO2md\<close> of a result page as the loop reads it: the first anchor with an
  \<^verbatim>\<open>href\<close> (if any) with the text of its \<^verbatim>\<open>span.CVA68e\<close> (if any), and the text of
  the container's \<^verbatim>\<open>span.FrIlee\<close> (if any).
\<close>

record anchor =
  href :: string
  title_tag :: "string option"

record container =
  link_tag :: "anchor option"
  description_tag :: "string option"

text \<open>
  The libraries and the network are parameters of the model: the date parser, the
  HTTP transport (its answer may depend on how many requests were made before), the
  HTML parser with the \<^verbatim>\<open>find_all\<close>/\<^verbatim>\<open>find\<close> queries of the loop, percent-decoding,
  and the user agent chosen for each request.
\<close>

record env =
  parse :: "string \<Rightarrow> exn + datetime"
  http_get :: "nat \<Rightarrow> request \<Rightarrow> exn + response"
  find_all :: "string \<Rightarrow> container list"
  unquote :: "string \<Rightarrow> string"
  get_useragent :: "nat \<Rightarrow> string"

section \<open>Dates\<close>

definition digit :: "nat \<Rightarrow> char" where
  "digit n = ''0123456789'' ! (n mod 10)"

text \<open>A number in decimal, without leading zeros.\<close>

function decimal :: "nat \<Rightarrow> string" where
  "decimal n = (if n < 10 then [digit n] else decimal (n div 10) @ [digit n])"
  by pat_completeness auto
termination
  by (relation "measure (\<lambda>n. n)") auto

declare decimal.simps [simp del]

text \<open>
  \<^verbatim>\<open>dt.strftime("%m/%d/%Y")\<close> as CPython gives it on Linux: the month and the day with two
  digits, the year as the C library writes it for \<^verbatim>\<open>%Y\<close>, in decimal without leading
  zeros (a \<^verbatim>\<open>datetime\<close> has a month up to 12, a day up to 31 and a year from 1 to 9999).
\<close>

definition strftime :: "datetime \<Rightarrow> string" where
  "strftime dt =
     [digit (month dt div 10), digit (month dt)] @ ''/'' @
     [digit (day dt div 10), digit (day dt)] @ ''/'' @
     decimal (year dt)"

definition format_date :: "env \<Rightarrow> string \<Rightarrow> exn + string" where
  "format_date e date_input =
     (case parse e date_input of
        Inr dt \<Rightarrow> Inr (strftime dt)
      | Inl ParserError \<Rightarrow> Inl (ValueError (''Could not parse date input: '' @ date_input))
      | Inl other \<Rightarrow> Inl other)"

text \<open>Python's truth value of an optional string: \<^verbatim>\<open>None\<close> and \<^verbatim>\<open>""\<close> are false.\<close>

definition truthy :: "string option \<Rightarrow> bool" where
  "truthy s = (case s of None \<Rightarrow> False | Some v \<Rightarrow> v \<noteq> [])"

definition get_date_range_tbs :: "env \<Rightarrow> string option \<Rightarrow> string option \<Rightarrow> exn + string option" where
  "get_date_range_tbs e start_date end_date =
     (if truthy start_date \<or> truthy end_date then
        (let start_date' = (if \<not> truthy start_date then end_date else start_date);
             end_date' = (if \<not> truthy end_date then start_date' else end_date)
         in case (start_date', end_date') of
              (Some s, Some t) \<Rightarrow>
                (case format_date e s of
                   Inl err \<Rightarrow> Inl err
                 | Inr start_date_formatted \<Rightarrow>
                     (case format_date e t of
                        Inl err \<Rightarrow> Inl err
                      | Inr end_date_formatted \<Rightarrow>
                          Inr (Some (''cdr:1,cd_min:'' @ start_date_formatted @
                                     '',cd_max:'' @ end_date_formatted))))
            | _ \<Rightarrow> Inl TypeError)
      else Inr None)"

section \<open>One request\<close>

definition req_params ::
  "env \<Rightarrow> nat \<Rightarrow> string \<Rightarrow> int \<Rightarrow> string \<Rightarrow> int \<Rightarrow> (string \<times> string) option \<Rightarrow> int \<Rightarrow>
   string \<Rightarrow> bool option \<Rightarrow> string option \<Rightarrow> string option \<Rightarrow> request" where
  "req_params e k term_arg results lang_arg start_arg proxies_arg timeout_arg safe_arg
     ssl_verify_arg region_arg tbs_arg =
     \<lparr>rq_q = term_arg, rq_num = results + 2, rq_hl = lang_arg, rq_start = start_arg,
      rq_safe = safe_arg, rq_gl = region_arg,
      rq_tbs = (if truthy tbs_arg then tbs_arg else None),
      rq_user_agent = get_useragent e k, rq_proxies = proxies_arg,
      rq_timeout = timeout_arg, rq_verify = ssl_verify_arg\<rparr>"

definition raise_for_status :: "response \<Rightarrow> exn + response" where
  "raise_for_status resp =
     (if 400 \<le> status_code resp \<and> status_code resp < 600
      then Inl (HTTPError (status_code resp)) else Inr resp)"

text \<open>\<^verbatim>\<open>_req\<close>, as the \<open>k\<close>-th request of the run (counted from 0).\<close>

definition req ::
  "env \<Rightarrow> nat \<Rightarrow> string \<Rightarrow> int \<Rightarrow> string \<Rightarrow> int \<Rightarrow> (string \<times> string) option \<Rightarrow> int \<Rightarrow>
   string \<Rightarrow> bool option \<Rightarrow> string option \<Rightarrow> string option \<Rightarrow> exn + response" where
  "req e k term_arg results lang_arg start_arg proxies_arg timeout_arg safe_arg
     ssl_verify_arg region_arg tbs_arg =
     (case http_get e k (req_params e k term_arg results lang_arg start_arg proxies_arg
                           timeout_arg safe_arg ssl_verify_arg region_arg tbs_arg) of
        Inl err \<Rightarrow> Inl err
      | Inr resp \<Rightarrow> raise_for_status resp)"

section \<open>Reading a link\<close>

text \<open>\<^verbatim>\<open>s.split(sep)\<close> for a separator of one character.\<close>

fun split :: "char \<Rightarrow> string \<Rightarrow> string list" where
  "split sep [] = [[]]"
| "split sep (c # cs) =
     (if c = sep then [] # split sep cs
      else (case split sep cs of [] \<Rightarrow> [[c]] | p # ps \<Rightarrow> (c # p) # ps))"

text \<open>
  \<^verbatim>\<open>s.replace(old, new)\<close>: the occurrences of \<open>old\<close> are found from left to right
  and do not overlap.
\<close>

function replace :: "string \<Rightarrow> string \<Rightarrow> string \<Rightarrow> string" where
  "replace old new [] = (if old = [] then new else [])"
| "replace old new (c # cs) =
     (if old = [] then new @ c # replace old new cs
      else if take (length old) (c # cs) = old
           then new @ replace old new (drop (length old) (c # cs))
           else c # replace old new cs)"
  by pat_completeness auto
termination
  by (relation "measure (\<lambda>(old, new, s). length s)") auto

definition extract_link :: "env \<Rightarrow> anchor option \<Rightarrow> string" where
  "extract_link e tag =
     (case tag of
        Some a \<Rightarrow> unquote e (replace ''/url?q='' [] (hd (split CHR ''&'' (href a))))
      | None \<Rightarrow> [])"

section \<open>The search loop\<close>

record SearchResult =
  url :: string
  title :: string
  description :: string

text \<open>What the generator yields: a URL string, or a \<open>SearchResult\<close> when \<^verbatim>\<open>advanced\<close>.\<close>

datatype item = Link string | Advanced SearchResult

fun item_url :: "item \<Rightarrow> string" where
  "item_url (Link l) = l"
| "item_url (Advanced r) = url r"

record search_args =
  term_arg :: string
  num_results :: int
  lang :: string
  proxy :: "string option"
  advanced :: bool
  sleep_interval :: int
  timeout :: int
  safe :: string
  ssl_verify :: "bool option"
  region :: "string option"
  start_num :: int
  unique :: bool
  start_date :: "string option"
  end_date :: "string option"

text \<open>
  The local variables of \<^verbatim>\<open>search\<close>, with what the run has done so far: the items
  yielded and the requests sent, both in order.
\<close>

record state =
  start :: int
  fetched_results :: int
  fetched_links :: "string set"
  new_results :: int
  yielded :: "item list"
  requests :: "request list"

text \<open>How a run ends: the \<^verbatim>\<open>while\<close> condition fails, the \<^verbatim>\<open>break\<close> after a page
  without new results, or an exception.\<close>

datatype outcome = Completed | Exhausted | Raised exn

text \<open>The URL of a result container: the anchor's link, unwrapped and decoded.\<close>

definition result_link :: "env \<Rightarrow> container \<Rightarrow> string" where
  "result_link e result = extract_link e (link_tag result)"

text \<open>What is yielded for a container: its link, with title and description when \<^verbatim>\<open>advanced\<close>.\<close>

definition result_item :: "env \<Rightarrow> search_args \<Rightarrow> container \<Rightarrow> item" where
  "result_item e a result =
     (let link = result_link e result;
          title_text = (case link_tag result of
                          Some tag \<Rightarrow> (case title_tag tag of Some t \<Rightarrow> t | None \<Rightarrow> [])
                        | None \<Rightarrow> []);
          description_text = (case description_tag result of Some d \<Rightarrow> d | None \<Rightarrow> [])
      in if advanced a
         then Advanced \<lparr>url = link, title = title_text, description = description_text\<rparr>
         else Link link)"

text \<open>
  The part of the loop body behind the uniqueness test: the link is added to the
  set, both counters go up and the item is yielded.
\<close>

definition yield_result :: "env \<Rightarrow> search_args \<Rightarrow> container \<Rightarrow> state \<Rightarrow> state" where
  "yield_result e a result st =
     st\<lparr>fetched_links := insert (result_link e result) (fetched_links st),
        fetched_results := fetched_results st + 1,
        new_results := new_results st + 1,
        yielded := yielded st @ [result_item e a result]\<rparr>"

text \<open>The \<^verbatim>\<open>for result in result_block\<close> loop over one page.\<close>

fun scan_page :: "env \<Rightarrow> search_args \<Rightarrow> container list \<Rightarrow> state \<Rightarrow> state" where
  "scan_page e a [] st = st"
| "scan_page e a (result # rest) st =
     (if result_link e result \<in> fetched_links st \<and> unique a then scan_page e a rest st
      else if fetched_results (yield_result e a result st) \<ge> num_results a
           then yield_result e a result st
           else scan_page e a rest (yield_result e a result st))"

text \<open>\<^verbatim>\<open>time.sleep\<close> refuses a negative length.\<close>

definition sleep :: "int \<Rightarrow> exn option" where
  "sleep secs = (if secs < 0 then Some (ValueError ''sleep length must be non-negative'') else None)"

lemma yield_result_fields [simp]:
  "fetched_links (yield_result e a result st) = insert (result_link e result) (fetched_links st)"
  "fetched_results (yield_result e a result st) = fetched_results st + 1"
  "new_results (yield_result e a result st) = new_results st + 1"
  "start (yield_result e a result st) = start st"
  "requests (yield_result e a result st) = requests st"
  "yielded (yield_result e a result st) = yielded st @ [result_item e a result]"
  by (simp_all add: yield_result_def)

lemma item_url_result_item [simp]: "item_url (result_item e a result) = result_link e result"
  by (simp add: result_item_def Let_def)

lemma scan_page_fetched:
  "fetched_results (scan_page e a page st)
     = fetched_results st + (new_results (scan_page e a page st) - new_results st)"
  by (induction page arbitrary: st) simp_all

lemma scan_page_new_mono: "new_results st \<le> new_results (scan_page e a page st)"
proof (induction page arbitrary: st)
  case Nil
  show ?case by simp
next
  case (Cons result rest)
  have "new_results st \<le> new_results (scan_page e a rest (yield_result e a result st))"
    using Cons.IH [of "yield_result e a result st"] by simp
  with Cons.IH [of st] show ?case by simp
qed

text \<open>
  The call of \<^verbatim>\<open>_req\<close> in the loop: the request it builds in state \<open>st\<close>, and its
  result. The number of requests sent so far tells the transport which request this is.
\<close>

definition page_params ::
  "env \<Rightarrow> search_args \<Rightarrow> (string \<times> string) option \<Rightarrow> string option \<Rightarrow> state \<Rightarrow> request" where
  "page_params e a proxies date_range_tbs st =
     req_params e (length (requests st)) (term_arg a) (num_results a - start st) (lang a)
       (start st) proxies (timeout a) (safe a) (ssl_verify a) (region a) date_range_tbs"

definition page_req ::
  "env \<Rightarrow> search_args \<Rightarrow> (string \<times> string) option \<Rightarrow> string option \<Rightarrow> state \<Rightarrow> exn + response" where
  "page_req e a proxies date_range_tbs st =
     req e (length (requests st)) (term_arg a) (num_results a - start st) (lang a)
       (start st) proxies (timeout a) (safe a) (ssl_verify a) (region a) date_range_tbs"

text \<open>The \<^verbatim>\<open>while fetched_results < num_results\<close> loop.\<close>

function search_loop ::
  "env \<Rightarrow> search_args \<Rightarrow> (string \<times> string) option \<Rightarrow> string option \<Rightarrow> state \<Rightarrow> state \<times> outcome" where
  "search_loop e a proxies date_range_tbs st =
     (if fetched_results st < num_results a then
        (let st0 = st\<lparr>requests := requests st @ [page_params e a proxies date_range_tbs st]\<rparr>
         in case page_req e a proxies date_range_tbs st of
              Inl err \<Rightarrow> (st0, Raised err)
            | Inr resp \<Rightarrow>
                (let st1 = scan_page e a (find_all e (resp_text resp)) (st0\<lparr>new_results := 0\<rparr>)
                 in if new_results st1 = 0 then (st1, Exhausted)
                    else
                      (let st2 = st1\<lparr>start := start st1 + 10\<rparr>
                       in case sleep (sleep_interval a) of
                            Some err \<Rightarrow> (st2, Raised err)
                          | None \<Rightarrow> search_loop e a proxies date_range_tbs st2)))
      else (st, Completed))"
  by pat_completeness auto
termination
proof (relation "measure (\<lambda>(e, a, proxies, date_range_tbs, st). nat (num_results a - fetched_results st))",
       goal_cases)
  case 1
  show ?case by simp
next
  case (2 e a proxies date_range_tbs st st0 resp st1 st2)
  have "fetched_results st1 = fetched_results (st0\<lparr>new_results := 0\<rparr>)
          + (new_results st1 - new_results (st0\<lparr>new_results := 0\<rparr>))"
    unfolding \<open>st1 = _\<close> by (rule scan_page_fetched)
  moreover have "0 \<le> new_results st1"
    unfolding \<open>st1 = _\<close> using scan_page_new_mono [of "st0\<lparr>new_results := 0\<rparr>"] by simp
  ultimately show ?case using 2 by simp
qed

declare search_loop.simps [simp del]

definition startswith :: "string \<Rightarrow> string \<Rightarrow> bool" where
  "startswith s p = (take (length p) s = p)"

text \<open>The \<^verbatim>\<open>proxies\<close> dictionary: the proxy for \<^verbatim>\<open>https\<close> and for \<^verbatim>\<open>http\<close>, or \<^verbatim>\<open>None\<close>.\<close>

definition proxies_of :: "string option \<Rightarrow> (string \<times> string) option" where
  "proxies_of p =
     (case p of
        Some v \<Rightarrow> if v \<noteq> [] \<and> (startswith v ''https'' \<or> startswith v ''http'')
                  then Some (v, v) else None
      | None \<Rightarrow> None)"

definition init_state :: "search_args \<Rightarrow> state" where
  "init_state a = \<lparr>start = start_num a, fetched_results = 0, fetched_links = {},
                   new_results = 0, yielded = [], requests = []\<rparr>"

text \<open>
  A whole run of the generator, consumed to its end: the final state (with the items
  yielded and the requests sent) and how the run ended.
\<close>

definition search :: "env \<Rightarrow> search_args \<Rightarrow> state \<times> outcome" where
  "search e a =
     (let proxies = proxies_of (proxy a)
      in case get_date_range_tbs e (start_date a) (end_date a) of
           Inl err \<Rightarrow> (init_state a, Raised err)
         | Inr date_range_tbs \<Rightarrow> search_loop e a proxies date_range_tbs (init_state a))"

section \<open>The claim's reading of the link step\<close>

text \<open>\<^verbatim>\<open>old in s\<close>: does \<open>old\<close> occur somewhere in \<open>s\<close>?\<close>

fun occurs :: "string \<Rightarrow> string \<Rightarrow> bool" where
  "occurs old [] = (old = [])"
| "occurs old (c # cs) = (take (length old) (c # cs) = old \<or> occurs old cs)"

text \<open>
  Removing a prefix removes \<open>p\<close> from the front of \<open>s\<close> and nothing else. With it,
  \<open>spec_extract_link\<close> is the link step as the specification words it: the part before
  the first \<^verbatim>\<open>&\<close>, without the prefix \<^verbatim>\<open>/url?q=\<close>, percent-decoded. It is compared
  with \<open>extract_link\<close>, which is the code.
\<close>

definition removeprefix :: "string \<Rightarrow> string \<Rightarrow> string" where
  "removeprefix p s = (if startswith s p then drop (length p) s else s)"

definition spec_extract_link :: "env \<Rightarrow> anchor option \<Rightarrow> string" where
  "spec_extract_link e tag =
     (case tag of
        Some a \<Rightarrow> unquote e (removeprefix ''/url?q='' (takeWhile (\<lambda>c. c \<noteq> CHR ''&'') (href a)))
      | None \<Rightarrow> [])"

section \<open>The documented date format\<close>

text \<open>
  The form \<^verbatim>\<open>mm/dd/yyyy\<close> that the docstring of \<^verbatim>\<open>format_date\<close> and the specification
  promise: two digits, two digits, four digits. It is compared with \<open>strftime\<close>, which is
  what the code returns.
\<close>

definition spec_strftime :: "datetime \<Rightarrow> string" where
  "spec_strftime dt =
     [digit (month dt div 10), digit (month dt)] @ ''/'' @
     [digit (day dt div 10), digit (day dt)] @ ''/'' @
     [digit (year dt div 1000), digit (year dt div 100), digit (year dt div 10), digit (year dt)]"

section \<open>Example pages and runs\<close>

text \<open>
  A well-formed result container for the site \<open>name\<close>, wrapped the way the result page
  wraps links, and a container without an anchor.
\<close>

definition hit :: "string \<Rightarrow> container" where
  "hit name = \<lparr>link_tag = Some \<lparr>href = ''/url?q=http://'' @ name @ ''.example/&sa=U&ved=2ah'',
                                  title_tag = Some name\<rparr>,
               description_tag = Some (''About '' @ name)\<rparr>"

definition bare :: "string \<Rightarrow> container" where
  "bare d = \<lparr>link_tag = None, description_tag = Some d\<rparr>"

text \<open>
  A remote source for the examples. The query \<^verbatim>\<open>same\<close> gets the same three results at
  every offset, \<^verbatim>\<open>overlap\<close> gets two pages that share one result, \<^verbatim>\<open>blank\<close> gets a
  page with two containers that have no anchor. The date parser reads the two dates of
  the examples, one of them in the year 999, and rejects every other string, among them
  the empty string and \<^verbatim>\<open>hello\<close>. No URL of the examples has a percent sign, so decoding
  leaves them as they are.
\<close>

definition example_env :: env where
  "example_env =
     \<lparr>parse = (\<lambda>s. if s = ''2004-10-20'' then Inr \<lparr>year = 2004, month = 10, day = 20\<rparr>
                   else if s = ''0999-12-31'' then Inr \<lparr>year = 999, month = 12, day = 31\<rparr>
                   else Inl ParserError),
      http_get = (\<lambda>k rq. Inr \<lparr>status_code = 200,
                    resp_text = (if rq_q rq = ''same'' then ''abc''
                                 else if rq_q rq = ''overlap'' \<and> rq_start rq = 0 then ''ab''
                                 else if rq_q rq = ''overlap'' \<and> rq_start rq = 10 then ''bc''
                                 else if rq_q rq = ''blank'' \<and> rq_start rq = 0 then ''blank''
                                 else [])\<rparr>),
      find_all = (\<lambda>t. if t = ''abc'' then [hit ''a'', hit ''b'', hit ''c'']
                       else if t = ''ab'' then [hit ''a'', hit ''b'']
                       else if t = ''bc'' then [hit ''b'', hit ''c'']
                       else if t = ''blank'' then [bare ''first'', hit ''a'', bare ''second'']
                       else []),
      unquote = (\<lambda>s. s),
      get_useragent = (\<lambda>k. ''Lynx/2.8.8'')\<rparr>"

text \<open>A remote source that answers every request with the same three results.\<close>

definition steady_env :: env where
  "steady_env = example_env\<lparr>http_get := (\<lambda>k rq. Inr \<lparr>status_code = 200, resp_text = ''abc''\<rparr>)\<rparr>"

text \<open>The default arguments of \<^verbatim>\<open>search\<close>, for a term, a number of results and \<^verbatim>\<open>unique\<close>.\<close>

definition example_args :: "string \<Rightarrow> int \<Rightarrow> bool \<Rightarrow> search_args" where
  "example_args t n u =
     \<lparr>term_arg = t, num_results = n, lang = ''en'', proxy = None, advanced = False,
      sleep_interval = 0, timeout = 5, safe = ''active'', ssl_verify = None, region = None,
      start_num = 0, unique = u, start_date = None, end_date = None\<rparr>"

section \<open>Facts about one page\<close>

lemma scan_page_invariant:
  assumes "P st" and "fetched_results st < num_results a"
    and step: "\<And>s r. P s \<Longrightarrow> fetched_results s < num_results a \<Longrightarrow>
                 \<not> (result_link e r \<in> fetched_links s \<and> unique a) \<Longrightarrow> P (yield_result e a r s)"
  shows "P (scan_page e a page st)"
  using assms(1,2)
proof (induction page arbitrary: st)
  case Nil
  then show ?case by simp
next
  case (Cons result rest)
  show ?case
  proof (cases "result_link e result \<in> fetched_links st \<and> unique a")
    case True
    then show ?thesis using Cons by simp
  next
    case False
    then have P': "P (yield_result e a result st)"
      using step Cons.prems by blast
    show ?thesis
    proof (cases "fetched_results (yield_result e a result st) \<ge> num_results a")
      case True
      with False P' show ?thesis by auto
    next
      case stay: False
      then have "fetched_results (yield_result e a result st) < num_results a" by simp
      from Cons.IH [OF P' this] False stay show ?thesis by auto
    qed
  qed
qed

lemma scan_page_requests [simp]: "requests (scan_page e a page st) = requests st"
  by (induction page arbitrary: st) simp_all

lemma scan_page_start [simp]: "start (scan_page e a page st) = start st"
  by (induction page arbitrary: st) simp_all


lemma scan_page_fills:
  assumes "fetched_results st < num_results a"
    and "num_results a - fetched_results st \<le> int (card (result_link e ` set page - fetched_links st))"
  shows "fetched_results (scan_page e a page st) = num_results a"
  using assms
proof (induction page arbitrary: st)
  case Nil
  then show ?case by simp
next
  case (Cons result rest)
  let ?l = "result_link e result"
  show ?case
  proof (cases "?l \<in> fetched_links st \<and> unique a")
    case True
    then have "result_link e ` set (result # rest) - fetched_links st
                 = result_link e ` set rest - fetched_links st"
      by auto
    with Cons.prems Cons.IH [of st] True show ?thesis by simp
  next
    case False
    let ?st' = "yield_result e a result st"
    show ?thesis
    proof (cases "fetched_results ?st' \<ge> num_results a")
      case True
      with False Cons.prems(1) show ?thesis by auto
    next
      case stay: False
      have "result_link e ` set (result # rest) - fetched_links st
              \<subseteq> insert ?l (result_link e ` set rest - fetched_links ?st')"
        by auto
      then have "card (result_link e ` set (result # rest) - fetched_links st)
                   \<le> card (insert ?l (result_link e ` set rest - fetched_links ?st'))"
        by (intro card_mono) simp_all
      also have "\<dots> \<le> Suc (card (result_link e ` set rest - fetched_links ?st'))"
        by (simp add: card_insert_if)
      finally have "num_results a - fetched_results ?st'
                      \<le> int (card (result_link e ` set rest - fetched_links ?st'))"
        using Cons.prems(2) by simp
      with stay have "fetched_results (scan_page e a rest ?st') = num_results a"
        by (intro Cons.IH) simp_all
      with False stay show ?thesis by auto
    qed
  qed
qed


lemma scan_page_appends: "\<exists>more. yielded (scan_page e a page st) = yielded st @ more"
proof (induction page arbitrary: st)
  case Nil
  show ?case by simp
next
  case (Cons result rest)
  from Cons.IH [of "yield_result e a result st"]
  obtain more where "yielded (scan_page e a rest (yield_result e a result st))
                       = yielded st @ result_item e a result # more"
    by auto
  with Cons.IH [of st] show ?case by simp
qed

lemma scan_page_plain:
  assumes "\<not> unique a" and "fetched_results st < num_results a"
  shows "yielded (scan_page e a page st)
           = yielded st @ map (result_item e a) (take (nat (num_results a - fetched_results st)) page)"
  using assms(2)
proof (induction page arbitrary: st)
  case Nil
  show ?case by simp
next
  case (Cons result rest)
  let ?st' = "yield_result e a result st"
  show ?case
  proof (cases "fetched_results ?st' \<ge> num_results a")
    case True
    with Cons.prems have "nat (num_results a - fetched_results st) = 1" by simp
    with True assms(1) show ?thesis by simp
  next
    case False
    then have "fetched_results ?st' < num_results a" by simp
    moreover have "nat (num_results a - (fetched_results st + 1))
                     = nat (num_results a - fetched_results st) - Suc 0"
      by arith
    moreover have "nat (num_results a - fetched_results st) \<noteq> 0"
      using Cons.prems by simp
    ultimately show ?thesis
      using Cons.IH [of ?st'] False assms(1) by (simp add: take_Cons')
  qed
qed



lemma result_link_no_anchor: "link_tag c = None \<Longrightarrow> result_link e c = []"
  by (simp add: result_link_def extract_link_def)


section \<open>Facts about the loop\<close>

text \<open>
  The five ways one round of the loop can go, as a proof rule: \<open>R\<close> relates the state at
  the head of the loop to the result of running the loop from there.
\<close>

lemma search_loop_rule:
  assumes completed: "\<And>st. \<not> fetched_results st < num_results a \<Longrightarrow> R st (st, Completed)"
    and failed: "\<And>st err. fetched_results st < num_results a \<Longrightarrow>
        page_req e a proxies tbs st = Inl err \<Longrightarrow>
        R st (st\<lparr>requests := requests st @ [page_params e a proxies tbs st]\<rparr>, Raised err)"
    and exhausted: "\<And>st resp st1. fetched_results st < num_results a \<Longrightarrow>
        page_req e a proxies tbs st = Inr resp \<Longrightarrow>
        st1 = scan_page e a (find_all e (resp_text resp))
                (st\<lparr>requests := requests st @ [page_params e a proxies tbs st], new_results := 0\<rparr>) \<Longrightarrow>
        new_results st1 = 0 \<Longrightarrow> R st (st1, Exhausted)"
    and asleep: "\<And>st resp st1 err. fetched_results st < num_results a \<Longrightarrow>
        page_req e a proxies tbs st = Inr resp \<Longrightarrow>
        st1 = scan_page e a (find_all e (resp_text resp))
                (st\<lparr>requests := requests st @ [page_params e a proxies tbs st], new_results := 0\<rparr>) \<Longrightarrow>
        new_results st1 \<noteq> 0 \<Longrightarrow> sleep (sleep_interval a) = Some err \<Longrightarrow>
        R st (st1\<lparr>start := start st1 + 10\<rparr>, Raised err)"
    and again: "\<And>st resp st1 res. fetched_results st < num_results a \<Longrightarrow>
        page_req e a proxies tbs st = Inr resp \<Longrightarrow>
        st1 = scan_page e a (find_all e (resp_text resp))
                (st\<lparr>requests := requests st @ [page_params e a proxies tbs st], new_results := 0\<rparr>) \<Longrightarrow>
        new_results st1 \<noteq> 0 \<Longrightarrow> sleep (sleep_interval a) = None \<Longrightarrow>
        R (st1\<lparr>start := start st1 + 10\<rparr>) res \<Longrightarrow> R st res"
  shows "R st (search_loop e a proxies tbs st)"
  using assms
proof (induction e a proxies tbs st rule: search_loop.induct)
  case (1 e a proxies tbs st)
  note unfold = search_loop.simps [of e a proxies tbs st]
  show ?case
  proof (cases "fetched_results st < num_results a")
    case False
    then show ?thesis using "1.prems"(1) by (simp add: unfold)
  next
    case more: True
    let ?st0 = "st\<lparr>requests := requests st @ [page_params e a proxies tbs st]\<rparr>"
    show ?thesis
    proof (cases "page_req e a proxies tbs st")
      case (Inl err)
      with more "1.prems"(2) show ?thesis by (simp add: unfold)
    next
      case (Inr resp)
      let ?st1 = "scan_page e a (find_all e (resp_text resp)) (?st0\<lparr>new_results := 0\<rparr>)"
      show ?thesis
      proof (cases "new_results ?st1 = 0")
        case True
        with more Inr "1.prems"(3) [OF more Inr refl] show ?thesis by (simp add: unfold)
      next
        case new: False
        show ?thesis
        proof (cases "sleep (sleep_interval a)")
          case (Some err)
          with more Inr new "1.prems"(4) [OF more Inr refl new] show ?thesis
            by (simp add: unfold Let_def)
        next
          case None
          have "R (?st1\<lparr>start := start ?st1 + 10\<rparr>)
                  (search_loop e a proxies tbs (?st1\<lparr>start := start ?st1 + 10\<rparr>))"
            by (rule "1.IH" [OF more refl Inr refl new refl None "1.prems"])
          from "1.prems"(5) [OF more Inr refl new None this] more Inr new None
          show ?thesis by (simp add: unfold Let_def)
        qed
      qed
    qed
  qed
qed

lemma search_loop_invariant:
  assumes "P st"
    and step: "\<And>s r. P s \<Longrightarrow> fetched_results s < num_results a \<Longrightarrow>
                 \<not> (result_link e r \<in> fetched_links s \<and> unique a) \<Longrightarrow> P (yield_result e a r s)"
    and sent: "\<And>s v. P s \<Longrightarrow> P (s\<lparr>requests := v\<rparr>)"
    and reset: "\<And>s v. P s \<Longrightarrow> P (s\<lparr>new_results := v\<rparr>)"
    and moved: "\<And>s v. P s \<Longrightarrow> P (s\<lparr>start := v\<rparr>)"
  shows "P (fst (search_loop e a proxies tbs st))"
proof -
  have page: "P (scan_page e a page (s\<lparr>requests := v, new_results := 0\<rparr>))"
    if "P s" "fetched_results s < num_results a" for s v page
    using that sent reset by (intro scan_page_invariant [where P = P] step) simp_all
  have "P st \<longrightarrow> P (fst (search_loop e a proxies tbs st))"
    by (rule search_loop_rule [where R = "\<lambda>s res. P s \<longrightarrow> P (fst res)"])
       (auto simp: sent page moved)
  with assms(1) show ?thesis by simp
qed

lemma search_loop_counts:
  "fetched_results st = int (length (yielded st)) \<Longrightarrow>
   fetched_results (fst (search_loop e a proxies tbs st))
     = int (length (yielded (fst (search_loop e a proxies tbs st))))"
  by (rule search_loop_invariant [where P = "\<lambda>s. fetched_results s = int (length (yielded s))"])
     simp_all

lemma search_loop_bound:
  "fetched_results st \<le> max 0 (num_results a) \<Longrightarrow>
   fetched_results (fst (search_loop e a proxies tbs st)) \<le> max 0 (num_results a)"
  by (rule search_loop_invariant [where P = "\<lambda>s. fetched_results s \<le> max 0 (num_results a)"])
     simp_all

lemma search_loop_distinct:
  assumes "unique a"
    and "distinct (map item_url (yielded st)) \<and> set (map item_url (yielded st)) \<subseteq> fetched_links st"
  shows "distinct (map item_url (yielded (fst (search_loop e a proxies tbs st))))
       \<and> set (map item_url (yielded (fst (search_loop e a proxies tbs st))))
           \<subseteq> fetched_links (fst (search_loop e a proxies tbs st))"
  using assms(2)
  by (rule search_loop_invariant
        [where P = "\<lambda>s. distinct (map item_url (yielded s)) \<and> set (map item_url (yielded s)) \<subseteq> fetched_links s"])
     (use assms(1) in auto)

lemma search_loop_links:
  "fetched_links st = set (map item_url (yielded st)) \<Longrightarrow>
   fetched_links (fst (search_loop e a proxies tbs st))
     = set (map item_url (yielded (fst (search_loop e a proxies tbs st))))"
  by (rule search_loop_invariant [where P = "\<lambda>s. fetched_links s = set (map item_url (yielded s))"])
     simp_all

lemma search_loop_plain:
  assumes "\<not> advanced a" and "\<forall>i \<in> set (yielded st). \<exists>l. i = Link l"
  shows "\<forall>i \<in> set (yielded (fst (search_loop e a proxies tbs st))). \<exists>l. i = Link l"
  using assms(2)
  by (rule search_loop_invariant [where P = "\<lambda>s. \<forall>i \<in> set (yielded s). \<exists>l. i = Link l"])
     (use assms(1) in \<open>auto simp: result_item_def Let_def\<close>)






section \<open>Facts about a whole run\<close>

lemma init_state_fields [simp]:
  "start (init_state a) = start_num a"
  "fetched_results (init_state a) = 0"
  "fetched_links (init_state a) = {}"
  "new_results (init_state a) = 0"
  "yielded (init_state a) = []"
  "requests (init_state a) = []"
  by (simp_all add: init_state_def)

lemma no_dates [simp]: "get_date_range_tbs e None None = Inr None"
  by (simp add: get_date_range_tbs_def truthy_def)

lemma search_invariant:
  assumes "\<And>p t. P (fst (search_loop e a p t (init_state a)))" and "P (init_state a)"
  shows "P (fst (search e a))"
  using assms by (simp add: search_def Let_def split: sum.splits)

lemma search_fetched_counts:
  "fetched_results (fst (search e a)) = int (length (yielded (fst (search e a))))"
  by (rule search_invariant [where P = "\<lambda>s. fetched_results s = int (length (yielded s))"])
     (simp_all add: search_loop_counts)

lemma search_bound: "length (yielded (fst (search e a))) \<le> nat (num_results a)"
proof -
  have "fetched_results (fst (search e a)) \<le> max 0 (num_results a)"
    by (rule search_invariant [where P = "\<lambda>s. fetched_results s \<le> max 0 (num_results a)"])
       (simp_all add: search_loop_bound)
  then show ?thesis by (simp add: search_fetched_counts)
qed

lemma search_links:
  "fetched_links (fst (search e a)) = set (map item_url (yielded (fst (search e a))))"
  by (rule search_invariant [where P = "\<lambda>s. fetched_links s = set (map item_url (yielded s))"])
     (simp_all add: search_loop_links)

lemma search_plain:
  "\<not> advanced a \<Longrightarrow> \<forall>i \<in> set (yielded (fst (search e a))). \<exists>l. i = Link l"
proof (rule search_invariant [where P = "\<lambda>s. \<forall>i \<in> set (yielded s). \<exists>l. i = Link l"])
  fix p t
  assume "\<not> advanced a"
  then show "\<forall>i \<in> set (yielded (fst (search_loop e a p t (init_state a)))). \<exists>l. i = Link l"
    by (rule search_loop_plain) simp
qed simp

lemma search_distinct:
  "unique a \<Longrightarrow> distinct (map item_url (yielded (fst (search e a))))"
  by (rule search_invariant [where P = "\<lambda>s. distinct (map item_url (yielded s))"])
     (simp_all add: search_loop_distinct)



lemma search_first_page_fills:
  assumes "0 < num_results a"
    and "get_date_range_tbs e (start_date a) (end_date a) = Inr tbs"
    and "page_req e a (proxies_of (proxy a)) tbs (init_state a) = Inr resp"
    and "num_results a \<le> int (card (result_link e ` set (find_all e (resp_text resp))))"
  shows "fetched_results (fst (search e a)) = num_results a"
proof -
  let ?p = "proxies_of (proxy a)"
  let ?s0 = "(init_state a)\<lparr>requests := requests (init_state a) @ [page_params e a ?p tbs (init_state a)],
                             new_results := 0\<rparr>"
  let ?s1 = "scan_page e a (find_all e (resp_text resp)) ?s0"
  let ?s2 = "?s1\<lparr>start := start ?s1 + 10\<rparr>"
  have full: "fetched_results ?s1 = num_results a"
    using assms(1,4) by (intro scan_page_fills) simp_all
  with scan_page_fetched [of e a "find_all e (resp_text resp)" ?s0] assms(1)
  have new: "new_results ?s1 \<noteq> 0" by simp
  have finished: "search_loop e a ?p tbs ?s2 = (?s2, Completed)"
    using full by (subst search_loop.simps) simp
  have "search e a = search_loop e a ?p tbs (init_state a)"
    using assms(2) by (simp add: search_def)
  also have "fst \<dots> = ?s2"
    using assms(1,3) new finished
    by (subst search_loop.simps) (simp add: Let_def split: option.splits)
  finally show ?thesis using full by simp
qed




section \<open>Facts about links and dates\<close>

lemma split_nonempty: "split sep s \<noteq> []"
  by (induction s) (auto split: list.splits)

lemma hd_split: "hd (split sep s) = takeWhile (\<lambda>c. c \<noteq> sep) s"
  by (induction s) (auto split: list.splits simp: split_nonempty)

lemma replace_absent: "old \<noteq> [] \<Longrightarrow> \<not> occurs old s \<Longrightarrow> replace old new s = s"
  by (induction s) auto

lemma replace_prefix: "old \<noteq> [] \<Longrightarrow> replace old new (old @ s) = new @ replace old new s"
  by (cases old) simp_all

lemma replace_only_prefix:
  assumes "old \<noteq> []" and "\<not> occurs old (removeprefix old s)"
  shows "replace old [] s = removeprefix old s"
proof (cases "startswith s old")
  case True
  then have "s = old @ drop (length old) s"
    by (metis append_take_drop_id startswith_def)
  then have "replace old [] s = replace old [] (drop (length old) s)"
    using replace_prefix [OF assms(1), of "[]" "drop (length old) s"] by simp
  with True assms show ?thesis by (simp add: removeprefix_def replace_absent)
next
  case False
  with assms show ?thesis by (simp add: removeprefix_def replace_absent)
qed

lemma extract_link_agrees:
  "extract_link e None = spec_extract_link e None"
  "\<not> occurs ''/url?q='' (removeprefix ''/url?q='' (takeWhile (\<lambda>c. c \<noteq> CHR ''&'') (href tag)))
     \<Longrightarrow> extract_link e (Some tag) = spec_extract_link e (Some tag)"
  using replace_only_prefix [of "''/url?q=''" "takeWhile (\<lambda>c. c \<noteq> CHR ''&'') (href tag)"]
  by (simp_all add: extract_link_def spec_extract_link_def hd_split)

lemma decimal_four_digits:
  assumes "1000 \<le> n" and "n < 10000"
  shows "decimal n = [digit (n div 1000), digit (n div 100), digit (n div 10), digit n]"
proof -
  have small: "n div 1000 < 10" and big: "\<not> n div 100 < 10" "\<not> n div 10 < 10" "\<not> n < 10"
    using assms by arith+
  have nest: "n div 100 div 10 = n div 1000" "n div 10 div 10 = n div 100"
    by (simp_all add: div_mult2_eq [symmetric])
  have "decimal (n div 1000) = [digit (n div 1000)]"
    using small by (subst decimal.simps) simp
  moreover have "decimal (n div 100) = decimal (n div 1000) @ [digit (n div 100)]"
    using big(1) nest(1) by (subst decimal.simps) simp
  moreover have "decimal (n div 10) = decimal (n div 100) @ [digit (n div 10)]"
    using big(2) nest(2) by (subst decimal.simps) simp
  moreover have "decimal n = decimal (n div 10) @ [digit n]"
    using big(3) by (subst decimal.simps) simp
  ultimately show ?thesis by simp
qed

lemma strftime_four_digit_year:
  "1000 \<le> year dt \<Longrightarrow> year dt < 10000 \<Longrightarrow> strftime dt = spec_strftime dt"
  by (simp add: strftime_def spec_strftime_def decimal_four_digits)

lemma date_range_forms_agree:
  assumes "parse e d = Inr dt" and "d \<noteq> []"
  shows "get_date_range_tbs e (Some d) None
           = Inr (Some (''cdr:1,cd_min:'' @ strftime dt @ '',cd_max:'' @ strftime dt))"
    and "get_date_range_tbs e (Some d) (Some d) = get_date_range_tbs e (Some d) None"
    and "get_date_range_tbs e None (Some d) = get_date_range_tbs e (Some d) None"
    and "format_date e d = Inr (strftime dt)"
  using assms by (simp_all add: get_date_range_tbs_def truthy_def format_date_def)


section \<open>The example runs, computed\<close>

lemma example_links [simp]:
  "result_link example_env (hit ''a'') = ''http://a.example/''"
  "result_link example_env (hit ''b'') = ''http://b.example/''"
  "result_link example_env (hit ''c'') = ''http://c.example/''"
  "result_link example_env (bare d) = []"
  by (simp_all add: result_link_def extract_link_def hit_def bare_def example_env_def)

lemma bare_fields [simp]:
  "link_tag (bare d) = None"
  "description_tag (bare d) = Some d"
  by (simp_all add: bare_def)

lemma example_items [simp]:
  "\<not> advanced a \<Longrightarrow> result_item example_env a c = Link (result_link example_env c)"
  by (simp add: result_item_def Let_def)

lemma example_page_req [simp]:
  "page_req example_env a p tbs st
     = Inr \<lparr>status_code = 200,
            resp_text = (if term_arg a = ''same'' then ''abc''
                         else if term_arg a = ''overlap'' \<and> start st = 0 then ''ab''
                         else if term_arg a = ''overlap'' \<and> start st = 10 then ''bc''
                         else if term_arg a = ''blank'' \<and> start st = 0 then ''blank''
                         else [])\<rparr>"
  by (simp add: page_req_def req_params_def req_def raise_for_status_def example_env_def)

lemma example_find_all [simp]:
  "find_all example_env ''abc'' = [hit ''a'', hit ''b'', hit ''c'']"
  "find_all example_env ''ab'' = [hit ''a'', hit ''b'']"
  "find_all example_env ''bc'' = [hit ''b'', hit ''c'']"
  "find_all example_env ''blank'' = [bare ''first'', hit ''a'', bare ''second'']"
  "find_all example_env [] = []"
  by (simp_all add: example_env_def)

lemma example_args_fields [simp]:
  "term_arg (example_args t n u) = t"
  "num_results (example_args t n u) = n"
  "unique (example_args t n u) = u"
  "advanced (example_args t n u) = False"
  "sleep_interval (example_args t n u) = 0"
  "start_num (example_args t n u) = 0"
  "start_date (example_args t n u) = None"
  "end_date (example_args t n u) = None"
  "proxy (example_args t n u) = None"
  by (simp_all add: example_args_def)

lemma steady_env_fields [simp]:
  "http_get steady_env k rq = Inr \<lparr>status_code = 200, resp_text = ''abc''\<rparr>"
  "find_all steady_env = find_all example_env"
  "unquote steady_env = unquote example_env"
  by (simp_all add: steady_env_def)

lemma steady_env_simps [simp]:
  "result_link steady_env c = result_link example_env c"
  "page_req steady_env a p tbs st = Inr \<lparr>status_code = 200, resp_text = ''abc''\<rparr>"
  "\<not> advanced a \<Longrightarrow> result_item steady_env a c = Link (result_link example_env c)"
  by (simp_all add: result_link_def extract_link_def result_item_def
        page_req_def req_def raise_for_status_def Let_def split: option.splits)


lemma same_run_plain:
  "yielded (fst (search example_env (example_args ''same'' 5 False)))
     = [Link ''http://a.example/'', Link ''http://b.example/'', Link ''http://c.example/'',
        Link ''http://a.example/'', Link ''http://b.example/'']
   \<and> snd (search example_env (example_args ''same'' 5 False)) = Completed
   \<and> fetched_links (fst (search example_env (example_args ''same'' 5 False)))
       = {''http://a.example/'', ''http://b.example/'', ''http://c.example/''}"
  by (simp add: search_def search_loop.simps get_date_range_tbs_def truthy_def init_state_def
        proxies_of_def sleep_def yield_result_def Let_def insert_commute)

lemma overlap_run:
  "yielded (fst (search example_env (example_args ''overlap'' 3 True)))
     = [Link ''http://a.example/'', Link ''http://b.example/'', Link ''http://c.example/'']
   \<and> snd (search example_env (example_args ''overlap'' 3 True)) = Completed"
  by (simp add: search_def search_loop.simps get_date_range_tbs_def truthy_def init_state_def
        proxies_of_def sleep_def yield_result_def Let_def)



section \<open>The claims\<close>

subsection \<open>C1: with \<^verbatim>\<open>unique\<close>, no URL is yielded twice\<close>

text \<open>
  C1. In every run with \<^verbatim>\<open>unique=True\<close> the URLs of the items yielded, over all pages, are
  pairwise different. A container whose URL is already in \<open>fetched_links\<close> is passed over:
  the loop goes on with the rest of the page in the same state, so nothing is counted
  and the page is not abandoned.
\<close>

theorem unique_no_url_twice:
  assumes "unique a"
  shows "distinct (map item_url (yielded (fst (search e a))))
       \<and> (\<forall>result rest st. result_link e result \<in> fetched_links st
            \<longrightarrow> scan_page e a (result # rest) st = scan_page e a rest st)"
  using assms search_distinct [of a e] by simp

text \<open>Two pages that share the result \<open>b\<close>: it is yielded once.\<close>

theorem unique_no_url_twice_witness:
  "unique (example_args ''overlap'' 3 True)
 \<and> find_all example_env ''ab'' = [hit ''a'', hit ''b'']
 \<and> find_all example_env ''bc'' = [hit ''b'', hit ''c'']
 \<and> yielded (fst (search example_env (example_args ''overlap'' 3 True)))
     = [Link ''http://a.example/'', Link ''http://b.example/'', Link ''http://c.example/'']
 \<and> distinct (map item_url (yielded (fst (search example_env (example_args ''overlap'' 3 True)))))"
  using unique_no_url_twice [of "example_args ''overlap'' 3 True" example_env] overlap_run
  by simp

subsection \<open>C2: at most \<^verbatim>\<open>num_results\<close> items, and exactly that many from a full first page\<close>

text \<open>
  C2. No run yields more than \<^verbatim>\<open>num_results\<close> items (none at all when \<^verbatim>\<open>num_results\<close>
  is not positive). When a first page is fetched (\<open>0 < num_results\<close>, the dates resolve and
  the first request succeeds) and it holds at least \<^verbatim>\<open>num_results\<close> different URLs, a run
  with \<^verbatim>\<open>advanced=False\<close> yields exactly \<^verbatim>\<open>num_results\<close> items, all of them plain URL
  strings.
\<close>

theorem search_yields_requested_number:
  "length (yielded (fst (search e a))) \<le> nat (num_results a)
 \<and> (0 < num_results a \<and> \<not> advanced a
    \<and> get_date_range_tbs e (start_date a) (end_date a) = Inr tbs
    \<and> page_req e a (proxies_of (proxy a)) tbs (init_state a) = Inr resp
    \<and> num_results a \<le> int (card (result_link e ` set (find_all e (resp_text resp))))
    \<longrightarrow> int (length (yielded (fst (search e a)))) = num_results a
      \<and> (\<forall>i \<in> set (yielded (fst (search e a))). \<exists>l. i = Link l))"
  using search_bound [of e a] search_first_page_fills [of a e tbs resp]
    search_fetched_counts [of e a] search_plain [of a e]
  by simp

text \<open>\<^verbatim>\<open>search("same", num_results=3)\<close> on a first page with three results.\<close>

theorem search_yields_requested_number_witness:
  "yielded (fst (search example_env (example_args ''same'' 3 False)))
     = [Link ''http://a.example/'', Link ''http://b.example/'', Link ''http://c.example/'']
 \<and> int (length (yielded (fst (search example_env (example_args ''same'' 3 False))))) = 3"
proof -
  have tbs: "get_date_range_tbs example_env (start_date (example_args ''same'' 3 False))
               (end_date (example_args ''same'' 3 False)) = Inr None"
    by (simp add: get_date_range_tbs_def truthy_def)
  have page: "page_req example_env (example_args ''same'' 3 False)
                (proxies_of (proxy (example_args ''same'' 3 False))) None
                (init_state (example_args ''same'' 3 False))
              = Inr \<lparr>status_code = 200, resp_text = ''abc''\<rparr>"
    by simp
  have three: "card (result_link example_env ` set (find_all example_env ''abc'')) = 3"
    by simp
  have run: "yielded (fst (search example_env (example_args ''same'' 3 False)))
     = [Link ''http://a.example/'', Link ''http://b.example/'', Link ''http://c.example/'']"
    by (simp add: search_def search_loop.simps get_date_range_tbs_def truthy_def init_state_def
        proxies_of_def sleep_def yield_result_def Let_def)
  from search_yields_requested_number [of example_env "example_args ''same'' 3 False" None
      "\<lparr>status_code = 200, resp_text = ''abc''\<rparr>"] tbs page three run
  show ?thesis by simp
qed

subsection \<open>C3: the loop ends, by count or by exhaustion\<close>




subsection \<open>C4: one date given stands for both ends of the range\<close>

text \<open>
  C4. The claim: for a date string \<open>d\<close> that the parser reads, giving \<open>d\<close> as start only,
  as both, or as end only produces the same token \<^verbatim>\<open>cdr:1,cd_min:<f>,cd_max:<f>\<close>, where
  \<open>f\<close> is the \<^verbatim>\<open>mm/dd/yyyy\<close> form of \<open>d\<close>, and no date at all gives \<^verbatim>\<open>None\<close>. The three
  forms do agree, and \<open>f\<close> has the promised form when the year has four digits
  (\<open>date_range_forms_agree\<close>, \<open>strftime_four_digit_year\<close>). For the year 999 the code
  writes the year with three digits, so the token is not the one the claim and the
  docstring of \<^verbatim>\<open>format_date\<close> describe.
\<close>

theorem date_token_year_not_padded:
  "get_date_range_tbs example_env (Some ''0999-12-31'') None
     = Inr (Some ''cdr:1,cd_min:12/31/999,cd_max:12/31/999'')
 \<and> get_date_range_tbs example_env (Some ''0999-12-31'') (Some ''0999-12-31'')
     = Inr (Some ''cdr:1,cd_min:12/31/999,cd_max:12/31/999'')
 \<and> get_date_range_tbs example_env None (Some ''0999-12-31'')
     = Inr (Some ''cdr:1,cd_min:12/31/999,cd_max:12/31/999'')
 \<and> get_date_range_tbs example_env None None = Inr None
 \<and> format_date example_env ''0999-12-31'' = Inr ''12/31/999''
 \<and> spec_strftime \<lparr>year = 999, month = 12, day = 31\<rparr> = ''12/31/0999''"
proof -
  have p: "parse example_env ''0999-12-31'' = Inr \<lparr>year = 999, month = 12, day = 31\<rparr>"
    by (simp add: example_env_def)
  have f: "strftime \<lparr>year = 999, month = 12, day = 31\<rparr> = ''12/31/999''"
    by (simp add: strftime_def decimal.simps digit_def)
  have g: "spec_strftime \<lparr>year = 999, month = 12, day = 31\<rparr> = ''12/31/0999''"
    by (simp add: spec_strftime_def digit_def)
  from date_range_forms_agree [OF p] f g show ?thesis by simp
qed

subsection \<open>C6: a string that is not a date\<close>




subsection \<open>C7: the URL of a result\<close>

text \<open>
  C7. The claim: for a container with an anchor, the URL is the \<^verbatim>\<open>href\<close> cut before its
  first \<^verbatim>\<open>&\<close>, without the wrapping prefix \<^verbatim>\<open>/url?q=\<close>, percent-decoded; without an
  anchor it is the empty string (\<open>spec_extract_link\<close>). The code does this wherever
  \<^verbatim>\<open>/url?q=\<close> occurs at the front only or not at all (\<open>extract_link_agrees\<close>). For a
  link that has \<^verbatim>\<open>/url?q=\<close> further in, the code takes it out there as well and
  returns a URL that is not the target.
\<close>

theorem extract_link_inner_wrapper:
  "extract_link example_env (Some \<lparr>href = ''http://a.example/url?q=1&x=2'', title_tag = None\<rparr>)
     = ''http://a.example1''
 \<and> spec_extract_link example_env (Some \<lparr>href = ''http://a.example/url?q=1&x=2'', title_tag = None\<rparr>)
     = ''http://a.example/url?q=1''
 \<and> extract_link example_env (Some \<lparr>href = ''http://a.example/url?q=1&x=2'', title_tag = None\<rparr>)
     \<noteq> spec_extract_link example_env (Some \<lparr>href = ''http://a.example/url?q=1&x=2'', title_tag = None\<rparr>)"
  by (simp add: extract_link_def spec_extract_link_def removeprefix_def startswith_def example_env_def)

subsection \<open>C8: missing parts of a container\<close>

text \<open>
  C8, as the code has it. A container is turned into an item without any exception being
  possible: a missing anchor gives the empty URL and the empty title, a missing title span
  the empty title, a missing description span the empty description. The container is
  then treated like any other: it is yielded next, unless \<^verbatim>\<open>unique\<close> is set and its URL
  (the empty string, for a missing anchor) is already in \<open>fetched_links\<close>.
\<close>

theorem missing_parts_give_empty_fields:
  "(advanced a \<longrightarrow> (\<exists>r. result_item e a result = Advanced r
        \<and> (link_tag result = None \<longrightarrow> url r = [] \<and> title r = [])
        \<and> (\<forall>tag. link_tag result = Some tag \<and> title_tag tag = None \<longrightarrow> title r = [])
        \<and> (description_tag result = None \<longrightarrow> description r = [])))
 \<and> (\<not> advanced a \<longrightarrow> result_item e a result = Link (result_link e result))
 \<and> (link_tag result = None \<longrightarrow> result_link e result = [])
 \<and> (\<not> (unique a \<and> result_link e result \<in> fetched_links st) \<longrightarrow>
       (\<exists>more. yielded (scan_page e a (result # rest) st)
                 = yielded st @ result_item e a result # more))"
proof -
  obtain more where "yielded (scan_page e a rest (yield_result e a result st))
                       = yielded (yield_result e a result st) @ more"
    using scan_page_appends by blast
  then have "\<not> (unique a \<and> result_link e result \<in> fetched_links st) \<longrightarrow>
       (\<exists>more. yielded (scan_page e a (result # rest) st)
                 = yielded st @ result_item e a result # more)"
    by auto
  then show ?thesis
    by (auto simp: result_item_def Let_def result_link_no_anchor)
qed

theorem missing_parts_give_empty_fields_witness:
  "result_item example_env ((example_args ''blank'' 5 False)\<lparr>advanced := True\<rparr>) (bare ''second'')
     = Advanced \<lparr>url = [], title = [], description = ''second''\<rparr>
 \<and> yielded (scan_page example_env ((example_args ''blank'' 5 False)\<lparr>advanced := True\<rparr>)
              [bare ''first'', bare ''second'']
              (init_state ((example_args ''blank'' 5 False)\<lparr>advanced := True\<rparr>)))
     = [Advanced \<lparr>url = [], title = [], description = ''first''\<rparr>,
        Advanced \<lparr>url = [], title = [], description = ''second''\<rparr>]"
  using missing_parts_give_empty_fields
    [of "(example_args ''blank'' 5 False)\<lparr>advanced := True\<rparr>" example_env "bare ''second''"
        "init_state ((example_args ''blank'' 5 False)\<lparr>advanced := True\<rparr>)" "[]"]
  by (simp add: result_item_def yield_result_def init_state_def Let_def)

text \<open>
  C8 as stated fails with \<^verbatim>\<open>unique=True\<close>: of two containers without an anchor, the
  second is not yielded, although the requested count is not reached.
\<close>

theorem second_blank_link_dropped_counterexample:
  "link_tag (bare ''second'') = None
 \<and> yielded (scan_page example_env ((example_args ''blank'' 5 True)\<lparr>advanced := True\<rparr>)
              [bare ''first'', bare ''second'']
              (init_state ((example_args ''blank'' 5 True)\<lparr>advanced := True\<rparr>)))
     = [Advanced \<lparr>url = [], title = [], description = ''first''\<rparr>]"
  by (simp add: result_item_def yield_result_def init_state_def Let_def)

subsection \<open>C9: the set of seen URLs without \<^verbatim>\<open>unique\<close>\<close>

text \<open>
  C9, as the code has it. With \<^verbatim>\<open>unique=False\<close> the set is filled all the same: at the end
  of a run it holds exactly the URLs yielded. It has no effect on the output: a page is
  yielded container by container, whatever the set holds, until the count is reached.
\<close>

theorem links_recorded_without_unique:
  assumes "\<not> unique a"
  shows "fetched_links (fst (search e a)) = set (map item_url (yielded (fst (search e a))))
       \<and> (\<forall>page st. fetched_results st < num_results a \<longrightarrow>
            yielded (scan_page e a page st)
              = yielded st @ map (result_item e a) (take (nat (num_results a - fetched_results st)) page))"
  using assms search_links [of e a] scan_page_plain [of a _ e] by simp

theorem links_recorded_without_unique_witness:
  "\<not> unique (example_args ''same'' 5 False)
 \<and> fetched_links (fst (search example_env (example_args ''same'' 5 False)))
     = {''http://a.example/'', ''http://b.example/'', ''http://c.example/''}
 \<and> yielded (scan_page example_env (example_args ''same'' 5 False) [hit ''a'', hit ''a'']
               (init_state (example_args ''same'' 5 False)))
     = [Link ''http://a.example/'', Link ''http://a.example/'']"
proof -
  have "(0::int) < 5" by simp
  with links_recorded_without_unique [of "example_args ''same'' 5 False" example_env] same_run_plain
  show ?thesis by auto
qed

text \<open>C9 as stated fails: after a run with \<^verbatim>\<open>unique=False\<close> the set is not empty.\<close>

theorem seen_set_filled_without_unique_counterexample:
  "\<not> unique (example_args ''same'' 5 False)
 \<and> fetched_links (fst (search example_env (example_args ''same'' 5 False))) \<noteq> {}"
  using same_run_plain by simp

subsection \<open>C10: containers without an anchor, with \<^verbatim>\<open>unique\<close>\<close>



end
